theory Spec2Isabelle
  imports Complex_Main
begin

section \<open>Errors\<close>

text \<open>
  The three resources an overlay owns: the one-second \<^verbatim>\<open>QTimer\<close>, the vlc media player
  and, for an animated asset, the \<^verbatim>\<open>QMovie\<close>.
\<close>

datatype resource = Timer | Player | Movie

text \<open>
  Exceptions as values. \<open>ValueError\<close> and \<open>FileNotFoundError\<close> are raised by the program
  itself (and \<open>ValueError\<close> by the builtin \<^verbatim>\<open>int\<close>), \<open>OverflowError\<close> by the Qt binding
  when a Python integer does not fit the C \<^verbatim>\<open>int\<close> of a Qt method, \<open>DownloadError\<close> stands
  for whatever the URL resolver raises, \<open>StopFailed r\<close> for an exception coming out of the
  \<^verbatim>\<open>stop()\<close> call of resource \<open>r\<close>.
\<close>

datatype error =
  ValueError | FileNotFoundError | OverflowError | DownloadError | StopFailed resource

section \<open>The setup dialog: \<^verbatim>\<open>SetupDialog.get_values\<close>\<close>

text \<open>
  Text fields are modelled as \<open>string\<close>, that is over the code points below 256.

  \<^verbatim>\<open>str.strip()\<close> removes the characters for which \<^verbatim>\<open>str.isspace()\<close> holds: below 256 these
  are the code points 9 to 13, 28 to 32, 133 and 160.
\<close>

definition py_isspace :: "char \<Rightarrow> bool" where
  "py_isspace c \<longleftrightarrow>
     (let n = (of_char c :: nat)
      in (9 \<le> n \<and> n \<le> 13) \<or> (28 \<le> n \<and> n \<le> 32) \<or> n = 133 \<or> n = 160)"

definition strip :: "string \<Rightarrow> string" where
  "strip s = rev (dropWhile py_isspace (rev (dropWhile py_isspace s)))"

text \<open>
  The builtin \<^verbatim>\<open>int(text)\<close> on a string, base 10. It skips white space at both ends
  (a smaller class than \<^verbatim>\<open>strip\<close>: the code points 28 to 31 are not skipped), reads an
  optional sign, then decimal digits in which single underscores may separate digits, and
  raises \<^verbatim>\<open>ValueError\<close> on anything else. Interpreters with a limit on the number of
  digits (\<^verbatim>\<open>sys.get_int_max_str_digits()\<close>, 4300 unless changed, 0 for no limit) raise
  \<^verbatim>\<open>ValueError\<close> too when more than 640 digits are read and the limit is exceeded; the
  limit is the parameter \<open>max_str_digits\<close>.
\<close>

definition int_isspace :: "char \<Rightarrow> bool" where
  "int_isspace c \<longleftrightarrow>
     (let n = (of_char c :: nat)
      in (9 \<le> n \<and> n \<le> 13) \<or> n = 32 \<or> n = 133 \<or> n = 160)"

definition is_digit :: "char \<Rightarrow> bool" where
  "is_digit c \<longleftrightarrow> (48::nat) \<le> of_char c \<and> of_char c \<le> (57::nat)"

definition digit_val :: "char \<Rightarrow> int" where
  "digit_val c = int (of_char c) - 48"

definition decimal :: "string \<Rightarrow> int" where
  "decimal ds = foldl (\<lambda>a c. 10 * a + digit_val c) 0 ds"

fun double_underscore :: "string \<Rightarrow> bool" where
  "double_underscore (a # b # cs) =
     ((a = CHR ''_'' \<and> b = CHR ''_'') \<or> double_underscore (b # cs))"
| "double_underscore _ = False"

definition py_int :: "nat \<Rightarrow> string \<Rightarrow> error + int" where
  "py_int max_str_digits text =
     (let s1 = dropWhile int_isspace text;
          neg = (s1 \<noteq> [] \<and> hd s1 = CHR ''-'');
          s2 = (if s1 \<noteq> [] \<and> (hd s1 = CHR ''+'' \<or> hd s1 = CHR ''-'') then tl s1 else s1);
          body = takeWhile (\<lambda>c. is_digit c \<or> c = CHR ''_'') s2;
          rest = dropWhile (\<lambda>c. is_digit c \<or> c = CHR ''_'') s2;
          digits = filter is_digit body
      in if body = [] \<or> hd body = CHR ''_'' \<or> last body = CHR ''_'' \<or> double_underscore body
         then Inl ValueError
         else if 640 < length digits \<and> 0 < max_str_digits \<and> max_str_digits < length digits
         then Inl ValueError
         else if dropWhile int_isspace rest \<noteq> [] then Inl ValueError
         else Inr ((if neg then - 1 else 1) * decimal digits))"

text \<open>
  \<^verbatim>\<open>
  def get_values(self):
      try:
          dur = int(self.duration_input.text())
      except:
          dur = 0
      return dur, self.url_input.text().strip()
  \<close>
  The two arguments are the contents of the duration field and of the URL field.
\<close>

definition get_values :: "nat \<Rightarrow> string \<Rightarrow> string \<Rightarrow> error + int \<times> string" where
  "get_values max_str_digits duration_text url_text =
     (let dur = (case py_int max_str_digits duration_text of Inr n \<Rightarrow> n | Inl _ \<Rightarrow> 0)
      in Inr (dur, strip url_text))"

section \<open>The overlay window\<close>

subsection \<open>State\<close>

text \<open>
  Playback state of the media player and of the animation. Both start out not started;
  \<^verbatim>\<open>stop()\<close> leaves them stopped.
\<close>

datatype playback = NotStarted | Playing | Paused | Stopped

text \<open>
  The attributes of an \<^verbatim>\<open>OverlayWindow\<close> and the state of the Qt and vlc objects it owns.
  \<open>timer_active\<close> is \<^verbatim>\<open>self.timer.isActive()\<close>, \<open>visible\<close> is the widget's visibility,
  \<open>progress_max\<close> and \<open>progress_value\<close> belong to the progress bar, \<open>pause_text\<close> is the label
  of the pause button, \<open>scaled_to\<close> is the size last handed to the scaler and \<open>label_w\<close>,
  \<open>label_h\<close> the geometry of the label that shows the asset. \<open>original_pixmap\<close> is the
  size of \<^verbatim>\<open>self.original_pixmap\<close> and \<open>label_pixmap\<close> the size of the pixmap the label
  shows; both mean something only for a static image, \<open>movie\<close> only when \<open>is_gif\<close> holds.
  Window position and the placement of the buttons are left out.
\<close>

record overlay =
  is_gif :: bool
  init_w :: int
  init_h :: int
  ctrl_h :: int
  width :: int
  height :: int
  label_w :: int
  label_h :: int
  scaled_to :: "int \<times> int"
  original_pixmap :: "int \<times> int"
  label_pixmap :: "int \<times> int"
  progress_max :: int
  progress_value :: int
  pause_text :: string
  paused :: bool
  duration :: int
  elapsed :: int
  timer_active :: bool
  player :: playback
  movie :: playback
  visible :: bool

subsection \<open>Calls on the owned objects\<close>

text \<open>
  \<open>F r\<close> says that \<^verbatim>\<open>stop()\<close> on resource \<open>r\<close> raises. Qt and vlc document no such
  failure, which is \<open>no_faults\<close>; the program guards the calls in \<^verbatim>\<open>_finish\<close> all the same,
  so every operation is defined for every \<open>F\<close>. A call that raises changes nothing.
\<close>

type_synonym faults = "resource \<Rightarrow> bool"

definition no_faults :: faults where
  "no_faults = (\<lambda>_. False)"

definition timer_stop :: "faults \<Rightarrow> overlay \<Rightarrow> error + overlay" where
  "timer_stop F s = (if F Timer then Inl (StopFailed Timer) else Inr (s\<lparr>timer_active := False\<rparr>))"

definition player_stop :: "faults \<Rightarrow> overlay \<Rightarrow> error + overlay" where
  "player_stop F s = (if F Player then Inl (StopFailed Player) else Inr (s\<lparr>player := Stopped\<rparr>))"

definition movie_stop :: "faults \<Rightarrow> overlay \<Rightarrow> error + overlay" where
  "movie_stop F s = (if F Movie then Inl (StopFailed Movie) else Inr (s\<lparr>movie := Stopped\<rparr>))"

definition timer_start :: "overlay \<Rightarrow> overlay" where
  "timer_start s = s\<lparr>timer_active := True\<rparr>"

definition player_play :: "overlay \<Rightarrow> overlay" where
  "player_play s = s\<lparr>player := Playing\<rparr>"

text \<open>vlc's \<^verbatim>\<open>pause()\<close> toggles between playing and paused and does nothing otherwise.\<close>

definition player_pause :: "overlay \<Rightarrow> overlay" where
  "player_pause s =
     (case player s of
        Playing \<Rightarrow> s\<lparr>player := Paused\<rparr>
      | Paused \<Rightarrow> s\<lparr>player := Playing\<rparr>
      | _ \<Rightarrow> s)"

text \<open>
  \<^verbatim>\<open>QMovie.start()\<close> resumes a paused movie; a movie that is not running reads its first
  frame at the scaled size, and with a scaled size that has no negative side and a side
  of 0 there is no frame to show and the movie stays as it is.
\<close>

definition movie_start :: "overlay \<Rightarrow> overlay" where
  "movie_start s =
     (case movie s of
        Playing \<Rightarrow> s
      | Paused \<Rightarrow> s\<lparr>movie := Playing\<rparr>
      | _ \<Rightarrow>
          if 0 \<le> fst (scaled_to s) \<and> 0 \<le> snd (scaled_to s)
             \<and> (fst (scaled_to s) = 0 \<or> snd (scaled_to s) = 0)
          then s else s\<lparr>movie := Playing\<rparr>)"

text \<open>\<^verbatim>\<open>QMovie.setPaused\<close>: pausing a movie that is not running does nothing.\<close>

definition movie_setPaused :: "bool \<Rightarrow> overlay \<Rightarrow> overlay" where
  "movie_setPaused p s =
     (if p then (if movie s = Playing \<or> movie s = Paused then s\<lparr>movie := Paused\<rparr> else s)
      else s\<lparr>movie := Playing\<rparr>)"

text \<open>
  \<^verbatim>\<open>QProgressBar.setValue\<close> ignores a value outside the range, unless the range is
  \<open>0..0\<close>. (In a run of a constructed overlay the value handed over is never above the
  larger of 1 and the duration, which the constructor has converted to a C \<^verbatim>\<open>int\<close>
  already; the conversion of the value is not modelled.)
\<close>

definition progress_setValue :: "int \<Rightarrow> overlay \<Rightarrow> overlay" where
  "progress_setValue v s =
     (if (v < 0 \<or> progress_max s < v) \<and> progress_max s \<noteq> 0 then s
      else s\<lparr>progress_value := v\<rparr>)"

text \<open>\<^verbatim>\<open>try: f() except: pass\<close>.\<close>

definition suppress :: "('s \<Rightarrow> error + 's) \<Rightarrow> 's \<Rightarrow> 's" where
  "suppress f s = (case f s of Inl _ \<Rightarrow> s | Inr s' \<Rightarrow> s')"

subsection \<open>Construction\<close>

text \<open>
  \<^verbatim>\<open>FIXED_SCALE = 0.5\<close> and \<^verbatim>\<open>int(w0 * FIXED_SCALE)\<close>. Multiplying an integer of fewer than
  54 bits by 0.5 is exact in binary floating point, so the product is modelled as a
  rational; \<^verbatim>\<open>int\<close> on a float truncates towards zero.
\<close>

definition FIXED_SCALE :: rat where
  "FIXED_SCALE = 1 / 2"

definition int_of_float :: "rat \<Rightarrow> int" where
  "int_of_float r = (if 0 \<le> r then \<lfloor>r\<rfloor> else \<lceil>r\<rceil>)"

definition IMAGE_PATH :: string where
  "IMAGE_PATH = ''sr2799489b00daws3.png''"

text \<open>\<^verbatim>\<open>path.lower().endswith('.gif')\<close>.\<close>

definition py_lower :: "char \<Rightarrow> char" where
  "py_lower c =
     (let n = (of_char c :: nat)
      in if (65 \<le> n \<and> n \<le> 90) \<or> (192 \<le> n \<and> n \<le> 222 \<and> n \<noteq> 215)
         then char_of (n + 32) else c)"

definition endswith :: "string \<Rightarrow> string \<Rightarrow> bool" where
  "endswith s suffix \<longleftrightarrow>
     length suffix \<le> length s \<and> drop (length s - length suffix) s = suffix"

definition is_gif_path :: "string \<Rightarrow> bool" where
  "is_gif_path path \<longleftrightarrow> endswith (map py_lower path) ''.gif''"

text \<open>
  What the constructor finds outside the program: \<open>load path\<close> is the native width and
  height of the asset in the file (\<open>None\<close> when \<^verbatim>\<open>QMovie\<close> finds it invalid or \<^verbatim>\<open>QPixmap\<close>
  gives the null pixmap), \<open>resolve url\<close> the stream address \<^verbatim>\<open>extract_info(url)['url']\<close> (\<open>None\<close>
  when the resolver, the lookup or the creation of the player raises), and \<open>dll_dir\<close> says,
  on Windows only, whether the VLC directory given to \<^verbatim>\<open>os.add_dll_directory\<close> exists
  (\<open>None\<close> on other platforms).
\<close>

record env =
  load :: "string \<Rightarrow> (int \<times> int) option"
  resolve :: "string \<Rightarrow> string option"
  dll_dir :: "bool option"

text \<open>
  Qt's \<^verbatim>\<open>QSize::scaled(s, Qt::KeepAspectRatio)\<close> on a size \<open>(wd, ht)\<close>: the largest size
  of that aspect ratio inside \<open>s\<close>, computed with integer division (all values here are
  non-negative).
\<close>

definition qsize_scaled :: "int \<times> int \<Rightarrow> int \<times> int \<Rightarrow> int \<times> int" where
  "qsize_scaled sz s =
     (let wd = fst sz; ht = snd sz; sw = fst s; sh = snd s
      in if wd = 0 \<or> ht = 0 then s
         else (let rw = sh * wd div ht
               in if rw \<le> sw then (rw, sh) else (sw, sw * ht div wd)))"

text \<open>
  The size of \<^verbatim>\<open>pixmap.scaled(w, h, Qt.KeepAspectRatio, Qt.SmoothTransformation)\<close> for a
  pixmap of size \<open>sz\<close>: the null pixmap when the target is empty, else the size above, at
  least one pixel each way.
\<close>

definition pixmap_scaled :: "int \<times> int \<Rightarrow> int \<times> int \<Rightarrow> int \<times> int" where
  "pixmap_scaled sz s =
     (if fst s \<le> 0 \<or> snd s \<le> 0 then (0, 0)
      else (let n = qsize_scaled sz s in (max (fst n) 1, max (snd n) 1)))"

text \<open>
  \<^verbatim>\<open>
  def _layout(self):
      w, h = self.width(), self.height()
      img_h = h - self.ctrl_h
      if self.is_gif:
          self.movie.setScaledSize(QtCore.QSize(w, img_h))
      else:
          scaled = self.original_pixmap.scaled(w, img_h, KeepAspectRatio, SmoothTransformation)
          self.label.setPixmap(scaled)
      self.label.setGeometry(0, 0, w, img_h)
  \<close>
\<close>

definition layout :: "overlay \<Rightarrow> overlay" where
  "layout s =
     (let w = width s; h = height s; img_h = h - ctrl_h s;
          s1 = (if is_gif s then s
                else s\<lparr>label_pixmap := pixmap_scaled (original_pixmap s) (w, img_h)\<rparr>)
      in s1\<lparr>scaled_to := (w, img_h), label_w := w, label_h := img_h\<rparr>)"

text \<open>
  \<^verbatim>\<open>OverlayWindow.__init__(self, path, duration, url)\<close>: load the asset (an invalid GIF
  raises \<^verbatim>\<open>ValueError\<close>, a missing image \<^verbatim>\<open>FileNotFoundError\<close>), compute the initial size,
  resize, set up label, progress bar and buttons, start the timer, resolve the URL, create
  the player, on Windows add the VLC directory, lay out. The widget is taken to have the
  size that \<^verbatim>\<open>resize\<close> was given.

  \<^verbatim>\<open>
  if self.is_gif:
      ...
      frame = self.movie.currentImage()
      w0, h0 = frame.width(), frame.height()
  else:
      ...
      w0, h0 = pix.width(), pix.height()
      self.original_pixmap = pix
  \<close>
  For a static image \<open>w0\<close>, \<open>h0\<close> are the native size. For a GIF they are read from
  \<^verbatim>\<open>currentImage()\<close> of a movie that has not read a frame yet, which is the null image:
  both are 0, whatever the file holds.

  \<^verbatim>\<open>self.progress.setRange(0, duration)\<close> hands the duration to a C \<^verbatim>\<open>int\<close> and raises
  \<^verbatim>\<open>OverflowError\<close> when it does not fit.
\<close>

definition OverlayWindow_init :: "env \<Rightarrow> string \<Rightarrow> int \<Rightarrow> string \<Rightarrow> error + overlay" where
  "OverlayWindow_init E path dur url =
     (let gif = is_gif_path path
      in case load E path of
           None \<Rightarrow> Inl (if gif then ValueError else FileNotFoundError)
         | Some native \<Rightarrow>
             (let w0 = (if gif then 0 else fst native);
                  h0 = (if gif then 0 else snd native);
                  iw = int_of_float (of_int w0 * FIXED_SCALE);
                  ih = int_of_float (of_int h0 * FIXED_SCALE);
                  s = \<lparr>is_gif = gif, init_w = iw, init_h = ih, ctrl_h = 100,
                       width = iw, height = ih + 100,
                       label_w = iw, label_h = ih, scaled_to = (iw, ih),
                       original_pixmap = (if gif then (0, 0) else native),
                       label_pixmap = (if gif then (0, 0) else pixmap_scaled native (iw, ih)),
                       progress_max = max 0 dur, progress_value = 0,
                       pause_text = ''Pause'', paused = False,
                       duration = dur, elapsed = 0, timer_active = True,
                       player = NotStarted, movie = NotStarted, visible = False\<rparr>
              in if dur < - 2147483648 \<or> 2147483647 < dur then Inl OverflowError
                 else case resolve E url of
                   None \<Rightarrow> Inl DownloadError
                 | Some _ \<Rightarrow>
                     if dll_dir E = Some False then Inl FileNotFoundError
                     else Inr (layout s)))"

text \<open>
  \<^verbatim>\<open>
  def showEvent(self, event):
      if self.is_gif:
          self.movie.start()
      self.player.play()
  \<close>
  and \<^verbatim>\<open>ow.show()\<close>, which makes the window visible and delivers the show event.
\<close>

definition showEvent :: "overlay \<Rightarrow> overlay" where
  "showEvent s = player_play (if is_gif s then movie_start s else s)"

definition show_window :: "overlay \<Rightarrow> overlay" where
  "show_window s = showEvent (s\<lparr>visible := True\<rparr>)"

text \<open>
  \<^verbatim>\<open>
  def resizeEvent(self, event):
      super().resizeEvent(event)
      self._layout()
  \<close>
  with the new width and height of the widget.
\<close>

definition resizeEvent :: "int \<Rightarrow> int \<Rightarrow> overlay \<Rightarrow> overlay" where
  "resizeEvent w h s = layout (s\<lparr>width := w, height := h\<rparr>)"

subsection \<open>Operations\<close>

text \<open>
  Every operation returns the new state of the window together with the number of times
  it emitted the \<^verbatim>\<open>finished\<close> signal, or the exception that escaped it.

  \<^verbatim>\<open>
  def _finish(self):
      try: self.timer.stop()
      except: pass
      try: self.player.stop()
      except: pass
      if self.is_gif:
          try: self.movie.stop()
          except: pass
      self.close()
      self.finished.emit()
  \<close>
\<close>

definition finish :: "faults \<Rightarrow> overlay \<Rightarrow> error + overlay \<times> nat" where
  "finish F s =
     (let s1 = suppress (timer_stop F) s;
          s2 = suppress (player_stop F) s1;
          s3 = (if is_gif s2 then suppress (movie_stop F) s2 else s2)
      in Inr (s3\<lparr>visible := False\<rparr>, 1))"

text \<open>
  \<^verbatim>\<open>
  def _tick(self):
      if not self.paused:
          self.elapsed += 1
          self.progress.setValue(self.elapsed)
          if self.elapsed >= self.duration:
              self._finish()
  \<close>
\<close>

definition tick :: "faults \<Rightarrow> overlay \<Rightarrow> error + overlay \<times> nat" where
  "tick F s =
     (if \<not> paused s then
        (let s1 = s\<lparr>elapsed := elapsed s + 1\<rparr>;
             s2 = progress_setValue (elapsed s1) s1
         in if elapsed s2 \<ge> duration s2 then finish F s2 else Inr (s2, 0))
      else Inr (s, 0))"

text \<open>
  \<^verbatim>\<open>
  def _toggle_pause(self):
      if not self.paused:
          self.timer.stop()
          self.player.pause()
          if self.is_gif:
              self.movie.setPaused(True)
          self.pause_btn.setText('Resume')
          self.paused = True
      else:
          self.timer.start(1000)
          self.player.play()
          if self.is_gif:
              self.movie.setPaused(False)
          self.pause_btn.setText('Pause')
          self.paused = False
  \<close>
\<close>

definition toggle_pause :: "faults \<Rightarrow> overlay \<Rightarrow> error + overlay \<times> nat" where
  "toggle_pause F s =
     (if \<not> paused s then
        (case timer_stop F s of
           Inl e \<Rightarrow> Inl e
         | Inr s1 \<Rightarrow>
             (let s2 = player_pause s1;
                  s3 = (if is_gif s2 then movie_setPaused True s2 else s2)
              in Inr (s3\<lparr>pause_text := ''Resume'', paused := True\<rparr>, 0)))
      else
        (let s1 = timer_start s;
             s2 = player_play s1;
             s3 = (if is_gif s2 then movie_setPaused False s2 else s2)
         in Inr (s3\<lparr>pause_text := ''Pause'', paused := False\<rparr>, 0)))"

text \<open>
  \<^verbatim>\<open>
  def _cancel(self):
      self.timer.stop()
      self.player.stop()
      if self.is_gif:
          self.movie.stop()
      self._finish()
  \<close>
\<close>

definition cancel :: "faults \<Rightarrow> overlay \<Rightarrow> error + overlay \<times> nat" where
  "cancel F s =
     (case timer_stop F s of
        Inl e \<Rightarrow> Inl e
      | Inr s1 \<Rightarrow>
          (case player_stop F s1 of
             Inl e \<Rightarrow> Inl e
           | Inr s2 \<Rightarrow>
               (case (if is_gif s2 then movie_stop F s2 else Inr s2) of
                  Inl e \<Rightarrow> Inl e
                | Inr s3 \<Rightarrow> finish F s3)))"

text \<open>
  The terminal state: tick schedule stopped, audio stopped, animation stopped (when there
  is one), window closed.
\<close>

definition finished_state :: "overlay \<Rightarrow> bool" where
  "finished_state s \<longleftrightarrow>
     \<not> timer_active s \<and> player s = Stopped \<and> (is_gif s \<longrightarrow> movie s = Stopped) \<and> \<not> visible s"

subsection \<open>Events\<close>

text \<open>
  The slots the constructor connects: the timer's \<^verbatim>\<open>timeout\<close> to \<^verbatim>\<open>_tick\<close>, the pause
  button's \<^verbatim>\<open>clicked\<close> to \<^verbatim>\<open>_toggle_pause\<close>, the cancel button's to \<^verbatim>\<open>_cancel\<close>; and
  the show and resize events of the window. (The two mouse handlers only move the window.)
\<close>

datatype event = Timeout | PauseClicked | CancelClicked | Shown | Resized int int

fun slot :: "faults \<Rightarrow> event \<Rightarrow> overlay \<Rightarrow> error + overlay \<times> nat" where
  "slot F Timeout s = tick F s"
| "slot F PauseClicked s = toggle_pause F s"
| "slot F CancelClicked s = cancel F s"
| "slot F Shown s = Inr (showEvent s, 0)"
| "slot F (Resized w h) s = Inr (resizeEvent w h s, 0)"

text \<open>
  \<open>invoke\<close> calls the slots one after the other, whether or not the event loop could
  deliver the events; the second component counts the \<^verbatim>\<open>finished\<close> signals emitted so
  far.
\<close>

fun invoke :: "faults \<Rightarrow> event list \<Rightarrow> overlay \<times> nat \<Rightarrow> error + overlay \<times> nat" where
  "invoke F [] c = Inr c"
| "invoke F (e # es) (s, n) =
     (case slot F e s of
        Inl err \<Rightarrow> Inl err
      | Inr (t, k) \<Rightarrow> invoke F es (t, n + k))"

text \<open>
  What the event loop can deliver: a timer emits \<^verbatim>\<open>timeout\<close> only while it is active, and
  a button is clicked or a window shown again or resized only while the window is visible.
\<close>

fun enabled :: "event \<Rightarrow> overlay \<Rightarrow> bool" where
  "enabled Timeout s = timer_active s"
| "enabled PauseClicked s = visible s"
| "enabled CancelClicked s = visible s"
| "enabled Shown s = visible s"
| "enabled (Resized w h) s = visible s"

text \<open>
  A run of the event loop over a sequence of events, with Qt and vlc as documented
  (\<open>no_faults\<close>); \<open>None\<close> when the sequence cannot happen.
\<close>

fun run :: "event list \<Rightarrow> overlay \<times> nat \<Rightarrow> (overlay \<times> nat) option" where
  "run [] c = Some c"
| "run (e # es) (s, n) =
     (if enabled e s then
        (case slot no_faults e s of
           Inl _ \<Rightarrow> None
         | Inr (t, k) \<Rightarrow> run es (t, n + k))
      else None)"

section \<open>The top-level cycle\<close>

text \<open>
  \<^verbatim>\<open>
  def start_cycle():
      dlg = SetupDialog()
      if dlg.exec_():
          dur, url = dlg.get_values()
          if dur > 0 and url:
              ow = OverlayWindow(IMAGE_PATH, dur, url)
              ow.finished.connect(start_cycle)
              ow.show(); ow.raise_(); ow.activateWindow()
              overlays[:] = [ow]
      else:
          app.quit()
  \<close>
  \<open>accepted\<close> is the result of \<^verbatim>\<open>dlg.exec_()\<close>; the outcome says whether an overlay was
  constructed.
\<close>

datatype cycle = AppQuit | NoOverlay | OverlayShown overlay | Uncaught error

definition start_cycle :: "nat \<Rightarrow> env \<Rightarrow> bool \<Rightarrow> string \<Rightarrow> string \<Rightarrow> cycle" where
  "start_cycle max_str_digits E accepted duration_text url_text =
     (if accepted then
        (case get_values max_str_digits duration_text url_text of
           Inl e \<Rightarrow> Uncaught e
         | Inr (dur, url) \<Rightarrow>
             if dur > 0 \<and> url \<noteq> [] then
               (case OverlayWindow_init E IMAGE_PATH dur url of
                  Inl e \<Rightarrow> Uncaught e
                | Inr ow \<Rightarrow> OverlayShown (show_window ow))
             else NoOverlay)
      else AppQuit)"

section \<open>Auxiliary definitions\<close>

text \<open>
  The invariant of a run, for an overlay of duration \<open>d\<close>: either the countdown is still
  under way, the window is visible and nothing has been signalled, or the overlay is in
  its terminal state and has signalled once.
\<close>

definition overlay_inv :: "int \<Rightarrow> overlay \<times> nat \<Rightarrow> bool" where
  "overlay_inv d c \<longleftrightarrow>
     (case c of (s, n) \<Rightarrow>
        duration s = d \<and> 0 \<le> elapsed s \<and>
        ((elapsed s < d \<and> visible s \<and> n = 0) \<or> (elapsed s \<le> d \<and> finished_state s \<and> n = 1)))"

text \<open>
  A concrete environment (an asset of the given native size at every path, a resolver that
  answers every URL) and the window the constructor builds in it for a 640 by 480 image.
\<close>

definition example_env :: "int \<Rightarrow> int \<Rightarrow> env" where
  "example_env w0 h0 =
     \<lparr>load = (\<lambda>_. Some (w0, h0)), resolve = (\<lambda>u. Some u), dll_dir = None\<rparr>"

definition example_overlay :: "int \<Rightarrow> overlay" where
  "example_overlay d =
     \<lparr>is_gif = False, init_w = 320, init_h = 240, ctrl_h = 100,
      width = 320, height = 340, label_w = 320, label_h = 240, scaled_to = (320, 240),
      original_pixmap = (640, 480), label_pixmap = (320, 240),
      progress_max = max 0 d, progress_value = 0,
      pause_text = ''Pause'', paused = False,
      duration = d, elapsed = 0, timer_active = True,
      player = NotStarted, movie = NotStarted, visible = False\<rparr>"

section \<open>Facts about the setup dialog\<close>

lemma strip_decompose:
  "u = takeWhile py_isspace u @ strip u
         @ rev (takeWhile py_isspace (rev (dropWhile py_isspace u)))"
proof -
  define v where "v = dropWhile py_isspace u"
  have "rev (takeWhile py_isspace (rev v) @ dropWhile py_isspace (rev v)) = v"
    by (simp only: takeWhile_dropWhile_id rev_rev_ident)
  then have "rev (dropWhile py_isspace (rev v)) @ rev (takeWhile py_isspace (rev v)) = v"
    by (simp only: rev_append)
  then have v: "v = strip u @ rev (takeWhile py_isspace (rev v))"
    by (simp add: strip_def v_def)
  have "u = takeWhile py_isspace u @ v"
    by (simp add: v_def)
  with v show ?thesis
    unfolding v_def by simp
qed

lemma strip_ends:
  assumes "strip u \<noteq> []"
  shows "\<not> py_isspace (hd (strip u))" and "\<not> py_isspace (last (strip u))"
proof -
  define v where "v = dropWhile py_isspace u"
  define w where "w = dropWhile py_isspace (rev v)"
  have su: "strip u = rev w"
    by (simp add: strip_def v_def w_def)
  with assms have w: "w \<noteq> []" by simp
  then have "\<not> py_isspace (hd w)"
    unfolding w_def by (rule hd_dropWhile)
  with w show "\<not> py_isspace (last (strip u))"
    by (simp add: su last_rev)
  from w have v: "v \<noteq> []"
    by (auto simp: w_def)
  then have hv: "\<not> py_isspace (hd v)"
    unfolding v_def by (rule hd_dropWhile)
  obtain ys where "rev v = ys @ w"
    unfolding w_def by (metis takeWhile_dropWhile_id)
  then have "v = rev w @ rev ys"
    by (metis rev_append rev_rev_ident)
  with w have "hd v = hd (rev w)"
    by simp
  with hv show "\<not> py_isspace (hd (strip u))"
    by (simp add: su)
qed

lemma digits_no_double_underscore:
  "list_all is_digit ds \<Longrightarrow> \<not> double_underscore ds"
  by (induction ds rule: double_underscore.induct) (auto simp: is_digit_def)

lemma py_int_abc: "py_int mx ''abc'' = Inl ValueError"
  by (simp add: py_int_def int_isspace_def is_digit_def)

lemma py_int_45: "py_int mx ''45'' = Inr 45"
  by (simp add: py_int_def int_isspace_def is_digit_def decimal_def digit_val_def)

lemma py_int_minus5: "py_int mx ''-5'' = Inr (- 5)"
  by (simp add: py_int_def int_isspace_def is_digit_def decimal_def digit_val_def)

text \<open>A minus sign followed by digits only is read as the negative number.\<close>

lemma py_int_negative:
  assumes "ds \<noteq> []" and "list_all is_digit ds"
    and "length ds \<le> 640 \<or> mx = 0 \<or> length ds \<le> mx"
  shows "py_int mx (CHR ''-'' # ds) = Inr (- decimal ds)"
proof -
  let ?P = "\<lambda>c. is_digit c \<or> c = CHR ''_''"
  from assms(2) have all: "\<forall>c\<in>set ds. ?P c"
    by (simp add: list_all_iff)
  then have tw: "takeWhile ?P ds = ds" and dw: "dropWhile ?P ds = []"
    by simp_all
  from assms(2) have flt: "filter is_digit ds = ds"
    by (simp add: list_all_iff)
  from assms(1,2) have "is_digit (hd ds)" and "is_digit (last ds)"
    by (simp_all add: list_all_iff)
  then have ends: "hd ds \<noteq> CHR ''_''" "last ds \<noteq> CHR ''_''"
    by (auto simp: is_digit_def)
  have sp: "\<not> int_isspace (CHR ''-'')"
    by (simp add: int_isspace_def)
  from assms(3) have "\<not> (640 < length ds \<and> 0 < mx \<and> mx < length ds)"
    by auto
  then show ?thesis
    using assms(1) ends digits_no_double_underscore [OF assms(2)]
    by (simp add: py_int_def Let_def sp tw dw flt)
qed

section \<open>Facts about the operations\<close>

lemmas stop_defs = timer_stop_def player_stop_def movie_stop_def suppress_def

lemma movie_start_fields [simp]:
  "elapsed (movie_start s) = elapsed s" "duration (movie_start s) = duration s"
  "visible (movie_start s) = visible s" "paused (movie_start s) = paused s"
  "timer_active (movie_start s) = timer_active s" "is_gif (movie_start s) = is_gif s"
  "player (movie_start s) = player s" "scaled_to (movie_start s) = scaled_to s"
  by (simp_all add: movie_start_def split: playback.splits)

lemmas call_defs = timer_start_def player_play_def player_pause_def
  movie_setPaused_def progress_setValue_def

lemma cancel_no_faults:
  "cancel no_faults s =
     Inr (s\<lparr>timer_active := False, player := Stopped,
              movie := (if is_gif s then Stopped else movie s), visible := False\<rparr>, 1)"
  by (simp add: cancel_def finish_def Let_def stop_defs no_faults_def)

lemma cancel_result:
  assumes "cancel F s = Inr (t, n)"
  shows "n = 1 \<and> finished_state t \<and> elapsed t = elapsed s \<and> duration t = duration s"
  using assms
  by (auto simp: cancel_def finish_def Let_def stop_defs finished_state_def
      split: if_splits)

lemma elapsed_finish: "finish F s = Inr (t, n) \<Longrightarrow> elapsed t = elapsed s"
  by (auto simp: finish_def Let_def stop_defs split: if_splits)

lemma elapsed_tick:
  "\<exists>t n. tick F s = Inr (t, n) \<and> elapsed t = (if paused s then elapsed s else elapsed s + 1)"
  by (simp add: tick_def finish_def Let_def stop_defs call_defs)

lemma elapsed_toggle_pause: "toggle_pause F s = Inr (t, n) \<Longrightarrow> elapsed t = elapsed s"
  by (auto simp: toggle_pause_def Let_def stop_defs call_defs
      split: if_splits playback.splits)

lemma showEvent_fields:
  "elapsed (showEvent s) = elapsed s" "duration (showEvent s) = duration s"
  "visible (showEvent s) = visible s" "paused (showEvent s) = paused s"
  "timer_active (showEvent s) = timer_active s"
  by (simp_all add: showEvent_def call_defs)

lemma resizeEvent_fields:
  "elapsed (resizeEvent w h s) = elapsed s" "duration (resizeEvent w h s) = duration s"
  "visible (resizeEvent w h s) = visible s" "paused (resizeEvent w h s) = paused s"
  "timer_active (resizeEvent w h s) = timer_active s"
  by (simp_all add: resizeEvent_def layout_def Let_def)

lemma tick_live:
  assumes "\<not> paused s" and "elapsed s + 1 < duration s"
  shows "\<exists>t. tick F s = Inr (t, 0) \<and> elapsed t = elapsed s + 1 \<and> duration t = duration s
     \<and> \<not> paused t \<and> timer_active t = timer_active s \<and> visible t = visible s"
  using assms by (simp add: tick_def Let_def call_defs)

lemma tick_last:
  assumes "\<not> paused s" and "duration s \<le> elapsed s + 1"
  shows "\<exists>t. tick no_faults s = Inr (t, 1) \<and> elapsed t = elapsed s + 1 \<and> duration t = duration s
     \<and> finished_state t"
  using assms
  by (simp add: tick_def finish_def Let_def call_defs stop_defs no_faults_def finished_state_def)

lemma tick_paused: "paused s \<Longrightarrow> tick F s = Inr (s, 0)"
  by (simp add: tick_def)

lemma toggle_pause_no_faults:
  "\<exists>t. toggle_pause no_faults s = Inr (t, 0) \<and> elapsed t = elapsed s \<and> duration t = duration s
     \<and> visible t = visible s \<and> paused t = (\<not> paused s) \<and> timer_active t = paused s"
  by (simp add: toggle_pause_def Let_def call_defs stop_defs no_faults_def split: playback.splits)

section \<open>Facts about construction\<close>

lemma init_fresh:
  assumes "OverlayWindow_init E path d url = Inr w"
  shows "duration (show_window w) = d" "elapsed (show_window w) = 0"
    "\<not> paused (show_window w)" "timer_active (show_window w)" "visible (show_window w)"
  using assms
  by (auto simp: OverlayWindow_init_def Let_def layout_def show_window_def showEvent_def
      call_defs split: option.splits if_splits)

lemma int_of_float_half: "0 \<le> w \<Longrightarrow> int_of_float (of_int w * FIXED_SCALE) = w div 2"
proof -
  assume w: "0 \<le> w"
  have "\<lfloor>rat_of_int w / rat_of_int 2\<rfloor> = w div 2"
    by (rule floor_divide_of_int_eq)
  with w show ?thesis
    by (simp add: int_of_float_def FIXED_SCALE_def)
qed

lemma int_of_float_examples:
  "int_of_float (5 * FIXED_SCALE) = 2" "int_of_float (3 * FIXED_SCALE) = 1"
  "int_of_float (640 * FIXED_SCALE) = 320" "int_of_float (480 * FIXED_SCALE) = 240"
  using int_of_float_half [of 5] int_of_float_half [of 3]
    int_of_float_half [of 640] int_of_float_half [of 480]
  by simp_all

lemma IMAGE_PATH_not_gif: "\<not> is_gif_path IMAGE_PATH"
  by (simp add: is_gif_path_def endswith_def IMAGE_PATH_def py_lower_def)

lemma div_times_le:
  fixes a b :: int
  assumes "0 < b"
  shows "a div b * b \<le> a"
proof -
  have "a div b * b + a mod b = a"
    by simp
  moreover from assms have "0 \<le> a mod b"
    by simp
  ultimately show ?thesis
    by linarith
qed

lemma div_less_if_less_times:
  fixes a b c :: int
  assumes "0 < b" and "a < c * b"
  shows "a div b < c"
proof (rule ccontr)
  assume "\<not> a div b < c"
  then have "c \<le> a div b" by simp
  with assms(1) have "c * b \<le> a div b * b"
    by (simp add: mult_right_mono)
  also from assms(1) have "\<dots> \<le> a"
    by (rule div_times_le)
  finally show False
    using assms(2) by simp
qed

lemma other_side_fits:
  fixes wd ht sw sh :: int
  assumes "0 < wd" and "0 < ht" and "sw < sh * wd div ht"
  shows "sw * ht div wd \<le> sh"
proof -
  from assms(3) have "sw + 1 \<le> sh * wd div ht" by simp
  with assms(2) have "(sw + 1) * ht \<le> (sh * wd div ht) * ht"
    by (simp add: mult_right_mono)
  also from assms(2) have "\<dots> \<le> sh * wd"
    by (rule div_times_le)
  finally have "sw * ht < sh * wd"
    using assms(2) by (simp add: algebra_simps)
  with assms(1) have "sw * ht div wd < sh"
    by (rule div_less_if_less_times)
  then show ?thesis by simp
qed

lemma pixmap_scaled_within:
  assumes "0 \<le> wd" and "0 \<le> ht" and "0 \<le> sw" and "0 \<le> sh"
  shows "fst (pixmap_scaled (wd, ht) (sw, sh)) \<le> sw \<and> snd (pixmap_scaled (wd, ht) (sw, sh)) \<le> sh"
proof (cases "wd = 0 \<or> ht = 0 \<or> sw = 0 \<or> sh = 0")
  case True
  with assms show ?thesis
    by (auto simp: pixmap_scaled_def qsize_scaled_def Let_def)
next
  case False
  with assms have pos: "0 < wd" "0 < ht" "0 < sw" "0 < sh"
    by simp_all
  show ?thesis
  proof (cases "sh * wd div ht \<le> sw")
    case True
    with pos show ?thesis
      by (simp add: pixmap_scaled_def qsize_scaled_def Let_def)
  next
    case False
    then have "sw < sh * wd div ht" by simp
    from other_side_fits [OF pos(1,2) this] False pos show ?thesis
      by (simp add: pixmap_scaled_def qsize_scaled_def Let_def)
  qed
qed

lemma pixmap_scaled_half_even:
  assumes "0 < a" and "0 < b"
  shows "pixmap_scaled (2 * a, 2 * b) (a, b) = (a, b)"
proof -
  have "b * (2 * a) = (2 * b) * a"
    by simp
  with assms(2) have "b * (2 * a) div (2 * b) = a"
    by (simp only: nonzero_mult_div_cancel_left)
  with assms show ?thesis
    by (simp add: pixmap_scaled_def qsize_scaled_def Let_def)
qed

text \<open>
  For a GIF the constructor takes the size from a movie that has not read a frame: the
  initial size is 0 by 0 whatever the native size, and the movie does not start when the
  window is shown.
\<close>

lemma gif_initial_size:
  assumes "OverlayWindow_init E path dur url = Inr ow" and "is_gif_path path"
  shows "init_w ow = 0 \<and> init_h ow = 0 \<and> scaled_to ow = (0, 0)
     \<and> movie (show_window ow) = NotStarted"
proof -
  have "int_of_float (0 * FIXED_SCALE) = 0"
    by (simp add: int_of_float_def)
  with assms show ?thesis
    by (auto simp: OverlayWindow_init_def Let_def layout_def show_window_def showEvent_def
        call_defs movie_start_def split: option.splits if_splits)
qed

lemma pixmap_scaled_examples:
  "pixmap_scaled (640, 480) (320, 240) = (320, 240)"
  "pixmap_scaled (640, 481) (320, 240) = (319, 240)"
  "pixmap_scaled (5, 3) (2, 1) = (1, 1)"
  by (simp_all add: pixmap_scaled_def qsize_scaled_def Let_def)

lemma example_overlay_init:
  assumes "- 2147483648 \<le> d" and "d \<le> 2147483647"
  shows "OverlayWindow_init (example_env 640 480) IMAGE_PATH d url = Inr (example_overlay d)"
  using assms
  by (simp add: OverlayWindow_init_def example_env_def example_overlay_def Let_def layout_def
      int_of_float_examples IMAGE_PATH_not_gif pixmap_scaled_examples)

section \<open>Facts about runs\<close>

lemma finished_not_enabled: "finished_state s \<Longrightarrow> \<not> enabled e s"
  by (cases e) (simp_all add: finished_state_def)

lemma slot_keeps_inv:
  assumes d: "0 < d" and inv: "overlay_inv d (s, n)" and en: "enabled e s"
    and sl: "slot no_faults e s = Inr (t, k)"
  shows "overlay_inv d (t, n + k)"
proof -
  from en have nf: "\<not> finished_state s"
    using finished_not_enabled by blast
  with inv have live: "duration s = d" "0 \<le> elapsed s" "elapsed s < d" "visible s" "n = 0"
    by (auto simp: overlay_inv_def)
  show ?thesis
  proof (cases e)
    case Timeout
    show ?thesis
    proof (cases "paused s")
      case True
      with Timeout sl have "t = s" "k = 0" by (simp_all add: tick_paused)
      with inv show ?thesis by simp
    next
      case running: False
      show ?thesis
      proof (cases "elapsed s + 1 < duration s")
        case more: True
        from tick_live [OF running more, of no_faults] Timeout sl live more
        show ?thesis by (auto simp: overlay_inv_def)
      next
        case False
        then have "duration s \<le> elapsed s + 1" by simp
        from tick_last [OF running this] Timeout sl live
        show ?thesis by (auto simp: overlay_inv_def)
      qed
    qed
  next
    case PauseClicked
    with toggle_pause_no_faults [of s] sl live show ?thesis
      by (auto simp: overlay_inv_def)
  next
    case CancelClicked
    with sl live show ?thesis
      by (auto simp: cancel_no_faults overlay_inv_def finished_state_def)
  next
    case Shown
    with sl live show ?thesis
      by (auto simp: overlay_inv_def showEvent_fields)
  next
    case (Resized w h)
    with sl live show ?thesis
      by (auto simp: overlay_inv_def resizeEvent_fields)
  qed
qed

lemma run_keeps_inv:
  "0 < d \<Longrightarrow> overlay_inv d c \<Longrightarrow> run es c = Some c' \<Longrightarrow> overlay_inv d c'"
proof (induction es arbitrary: c)
  case Nil
  then show ?case by simp
next
  case (Cons e es)
  obtain s n where c: "c = (s, n)" by (cases c)
  from Cons.prems(3) c have en: "enabled e s"
    by (auto split: if_splits)
  with Cons.prems(3) c obtain t k where sl: "slot no_faults e s = Inr (t, k)"
    and rest: "run es (t, n + k) = Some c'"
    by (auto split: sum.splits)
  from Cons.prems(1,2) c en sl have "overlay_inv d (t, n + k)"
    by (auto intro: slot_keeps_inv)
  with Cons.IH Cons.prems(1) rest show ?case by blast
qed

lemma run_append:
  "run (xs @ ys) c = (case run xs c of None \<Rightarrow> None | Some c' \<Rightarrow> run ys c')"
proof (induction xs arbitrary: c)
  case Nil
  show ?case by simp
next
  case (Cons e xs)
  obtain s n where "c = (s, n)" by (cases c)
  with Cons.IH show ?case
    by (simp split: sum.splits)
qed

lemma invoke_append:
  "invoke F (xs @ ys) c = (case invoke F xs c of Inl e \<Rightarrow> Inl e | Inr c' \<Rightarrow> invoke F ys c')"
proof (induction xs arbitrary: c)
  case Nil
  show ?case by simp
next
  case (Cons e xs)
  obtain s n where "c = (s, n)" by (cases c)
  with Cons.IH show ?case
    by (simp split: sum.splits)
qed

text \<open>Whatever the event loop can deliver, calling the slots directly does too.\<close>

lemma run_invoke: "run es c = Some c' \<Longrightarrow> invoke no_faults es c = Inr c'"
proof (induction es arbitrary: c)
  case Nil
  then show ?case by simp
next
  case (Cons e es)
  obtain s n where "c = (s, n)" by (cases c)
  with Cons show ?case
    by (auto split: if_splits sum.splits)
qed

lemma run_finished:
  assumes "finished_state s" and "run es (s, n) = Some c"
  shows "es = [] \<and> c = (s, n)"
proof (cases es)
  case Nil
  with assms(2) show ?thesis by simp
next
  case (Cons e es')
  with assms finished_not_enabled [of s e] show ?thesis by simp
qed

lemma run_ticks_live:
  assumes "\<not> paused s" and "timer_active s" and "elapsed s + int i < duration s"
  shows "\<exists>t. run (replicate i Timeout) (s, n) = Some (t, n) \<and> elapsed t = elapsed s + int i
     \<and> duration t = duration s \<and> \<not> paused t \<and> timer_active t \<and> visible t = visible s"
  using assms
proof (induction i arbitrary: s)
  case 0
  then show ?case by simp
next
  case (Suc i)
  from Suc.prems(3) have "elapsed s + 1 < duration s" by simp
  from tick_live [OF Suc.prems(1) this, of no_faults]
  obtain t1 where t1: "tick no_faults s = Inr (t1, 0)" "elapsed t1 = elapsed s + 1"
    "duration t1 = duration s" "\<not> paused t1" "timer_active t1 = timer_active s"
    "visible t1 = visible s"
    by blast
  with Suc.prems have "\<not> paused t1" "timer_active t1" "elapsed t1 + int i < duration t1"
    by simp_all
  from Suc.IH [OF this] t1 Suc.prems(2) show ?case
    by auto
qed

lemma run_ticks_finish:
  assumes "\<not> paused s" and "timer_active s" and "elapsed s < duration s"
  shows "\<exists>t. run (replicate (nat (duration s - elapsed s)) Timeout) (s, n) = Some (t, n + 1)
     \<and> elapsed t = duration s \<and> duration t = duration s \<and> finished_state t"
proof -
  define j where "j = nat (duration s - elapsed s - 1)"
  from assms(3) have nj: "nat (duration s - elapsed s) = Suc j"
    and lt: "elapsed s + int j < duration s"
    by (simp_all add: j_def)
  from run_ticks_live [OF assms(1,2) lt, of n]
  obtain t1 where t1: "run (replicate j Timeout) (s, n) = Some (t1, n)"
    "elapsed t1 = elapsed s + int j" "duration t1 = duration s" "\<not> paused t1" "timer_active t1"
    by blast
  from assms(3) t1 have "duration t1 \<le> elapsed t1 + 1"
    by (simp add: j_def)
  from tick_last [OF t1(4) this]
  obtain t where t: "tick no_faults t1 = Inr (t, 1)" "elapsed t = elapsed t1 + 1"
    "duration t = duration t1" "finished_state t"
    by blast
  have "replicate (Suc j) Timeout = replicate j Timeout @ [Timeout]"
    by (simp add: replicate_append_same)
  then have "run (replicate (Suc j) Timeout) (s, n) = Some (t, n + 1)"
    using t1 t by (simp add: run_append)
  moreover from assms(3) t t1 have "elapsed t = duration s"
    by (simp add: j_def)
  ultimately show ?thesis
    using t t1 nj by auto
qed

lemma invoke_paused_ticks:
  "paused s \<Longrightarrow> invoke F (replicate m Timeout) (s, n) = Inr (s, n)"
  by (induction m) (simp_all add: tick_paused)

text \<open>
  \<^verbatim>\<open>_tick\<close> itself does not test whether the overlay has finished: called on an overlay in
  its terminal state that is not paused, it counts once more and finishes again. Only the
  stopped timer keeps this from happening in a run.
\<close>

lemma tick_after_finish:
  assumes "finished_state s" and "\<not> paused s" and "elapsed s = duration s"
  shows "\<exists>t. tick F s = Inr (t, 1) \<and> elapsed t = duration s + 1"
  using assms by (auto simp: tick_def finish_def Let_def call_defs stop_defs)

section \<open>Claims\<close>

subsection \<open>C1: the countdown stays within the duration\<close>

text \<open>
  Claim C1. An overlay is constructed with a positive duration \<open>d\<close> and shown. In every
  state that a run of the event loop reaches (timeouts delivered to \<^verbatim>\<open>_tick\<close>, clicks to
  \<^verbatim>\<open>_toggle_pause\<close> and \<^verbatim>\<open>_cancel\<close>, show and resize events, in any order in which they
  can occur),
  the duration is still \<open>d\<close> and \<open>0 \<le> elapsed \<le> duration\<close>. When \<open>elapsed = duration\<close>
  the overlay is in its terminal state (timer stopped, player stopped, animation stopped,
  window closed) and the \<^verbatim>\<open>finished\<close> signal has been emitted exactly once; it is never
  emitted more than once. A timeout is delivered only while the timer is active and a click
  only while the window is visible: the bound rests on that, see \<open>tick_after_finish\<close>.
\<close>

theorem elapsed_within_duration:
  assumes "OverlayWindow_init E path d url = Inr w" and "0 < d"
    and "run es (show_window w, 0) = Some (s, n)"
  shows "duration s = d \<and> 0 \<le> elapsed s \<and> elapsed s \<le> duration s \<and> n \<le> 1
     \<and> (elapsed s = duration s \<longrightarrow> finished_state s \<and> n = 1)
     \<and> (n = 1 \<longleftrightarrow> finished_state s)"
proof -
  from init_fresh [OF assms(1)] assms(2) have "overlay_inv d (show_window w, 0)"
    by (simp add: overlay_inv_def)
  from assms(2) this assms(3) have "overlay_inv d (s, n)"
    by (rule run_keeps_inv)
  then show ?thesis
    by (auto simp: overlay_inv_def finished_state_def)
qed

text \<open>
  A run of a two-second overlay: a tick, pause, a show event, resume, a second tick. It
  ends with \<open>elapsed = duration = 2\<close>, finished, one signal.
\<close>

theorem elapsed_within_duration_witness:
  "OverlayWindow_init (example_env 640 480) IMAGE_PATH 2 ''u'' = Inr (example_overlay 2)
   \<and> (0::int) < 2
   \<and> (\<exists>s. run [Timeout, PauseClicked, Shown, PauseClicked, Timeout]
             (show_window (example_overlay 2), 0) = Some (s, 1)
          \<and> elapsed s = 2 \<and> duration s = 2 \<and> finished_state s)"
proof -
  have d: "(0::int) < 2" by simp
  have i: "OverlayWindow_init (example_env 640 480) IMAGE_PATH 2 ''u'' = Inr (example_overlay 2)"
    by (simp add: example_overlay_init)
  have "\<exists>s n. run [Timeout, PauseClicked, Shown, PauseClicked, Timeout]
             (show_window (example_overlay 2), 0) = Some (s, n) \<and> elapsed s = 2"
    by (simp add: example_overlay_def show_window_def showEvent_def tick_def toggle_pause_def
        finish_def Let_def stop_defs call_defs no_faults_def)
  then obtain s n where r: "run [Timeout, PauseClicked, Shown, PauseClicked, Timeout]
             (show_window (example_overlay 2), 0) = Some (s, n)" and e: "elapsed s = 2"
    by blast
  from elapsed_within_duration [OF i d r] e
  have "n = 1" "duration s = 2" "finished_state s"
    by simp_all
  with r e d show ?thesis
    using i by blast
qed

subsection \<open>C2: a countdown that is not paused finishes after \<open>d\<close> ticks\<close>

text \<open>
  Claim C2. For an overlay of duration \<open>d > 0\<close>, constructed and shown: after \<open>j < d\<close>
  timeouts and no pause, \<open>elapsed = j\<close>, the pause flag is unset, nothing has been
  signalled and the overlay is not finished; after exactly \<open>d\<close> timeouts it is in its
  terminal state with \<open>elapsed = d\<close> and has signalled once. From there no event can be
  delivered any more, so \<open>elapsed\<close> is never counted up again.
\<close>

theorem finishes_after_duration_ticks:
  assumes "OverlayWindow_init E path d url = Inr w" and "0 < d"
  shows "(\<forall>j<nat d. \<exists>s. run (replicate j Timeout) (show_window w, 0) = Some (s, 0)
            \<and> elapsed s = int j \<and> \<not> paused s \<and> \<not> finished_state s)
     \<and> (\<exists>s. run (replicate (nat d) Timeout) (show_window w, 0) = Some (s, 1)
            \<and> elapsed s = d \<and> finished_state s \<and> (\<forall>e. \<not> enabled e s)
            \<and> (\<forall>es c. run es (s, 1) = Some c \<longrightarrow> es = [] \<and> c = (s, 1)))"
proof (intro conjI allI impI)
  note fresh = init_fresh [OF assms(1)]
  fix j
  assume "j < nat d"
  with fresh have "elapsed (show_window w) + int j < duration (show_window w)"
    by simp
  from run_ticks_live [OF fresh(3,4) this, of 0] fresh(2)
  show "\<exists>s. run (replicate j Timeout) (show_window w, 0) = Some (s, 0)
            \<and> elapsed s = int j \<and> \<not> paused s \<and> \<not> finished_state s"
    by (auto simp: finished_state_def)
next
  note fresh = init_fresh [OF assms(1)]
  from fresh assms(2) have "elapsed (show_window w) < duration (show_window w)"
    by simp
  from run_ticks_finish [OF fresh(3,4) this, of 0] fresh(1,2)
  obtain s where s: "run (replicate (nat d) Timeout) (show_window w, 0) = Some (s, 1)"
    "elapsed s = d" "finished_state s"
    by auto
  moreover from s(3) have "\<forall>e. \<not> enabled e s"
    by (simp add: finished_not_enabled)
  moreover from s(3) have "\<forall>es c. run es (s, 1) = Some c \<longrightarrow> es = [] \<and> c = (s, 1)"
    by (blast dest: run_finished)
  ultimately show "\<exists>s. run (replicate (nat d) Timeout) (show_window w, 0) = Some (s, 1)
            \<and> elapsed s = d \<and> finished_state s \<and> (\<forall>e. \<not> enabled e s)
            \<and> (\<forall>es c. run es (s, 1) = Some c \<longrightarrow> es = [] \<and> c = (s, 1))"
    by blast
qed

text \<open>
  The scenario of a three-second overlay: ticks at 1, 2, 3; not finished after two of
  them, finished at the third, and a fourth timeout cannot be delivered.
\<close>

theorem finishes_after_duration_ticks_witness:
  "OverlayWindow_init (example_env 640 480) IMAGE_PATH 3 ''u'' = Inr (example_overlay 3)
   \<and> (0::int) < 3 \<and> (2::nat) < nat 3
   \<and> (\<exists>s. run (replicate 2 Timeout) (show_window (example_overlay 3), 0) = Some (s, 0)
          \<and> elapsed s = 2 \<and> \<not> finished_state s)
   \<and> (\<exists>s. run (replicate (nat 3) Timeout) (show_window (example_overlay 3), 0) = Some (s, 1)
          \<and> elapsed s = 3 \<and> finished_state s \<and> run [Timeout] (s, 1) = None)"
proof -
  have d: "(0::int) < 3" by simp
  have j: "(2::nat) < nat 3" by simp
  have i: "OverlayWindow_init (example_env 640 480) IMAGE_PATH 3 ''u'' = Inr (example_overlay 3)"
    by (simp add: example_overlay_init)
  note t = finishes_after_duration_ticks [OF i d]
  from t j have "\<exists>s. run (replicate 2 Timeout) (show_window (example_overlay 3), 0) = Some (s, 0)
          \<and> elapsed s = int 2 \<and> \<not> paused s \<and> \<not> finished_state s"
    by blast
  moreover from t obtain s
    where s: "run (replicate (nat 3) Timeout) (show_window (example_overlay 3), 0) = Some (s, 1)"
      "elapsed s = 3" "finished_state s" "\<forall>e. \<not> enabled e s"
    by blast
  from s(4) have "run [Timeout] (s, 1) = None"
    by simp
  with s have "\<exists>s. run (replicate (nat 3) Timeout) (show_window (example_overlay 3), 0) = Some (s, 1)
          \<and> elapsed s = 3 \<and> finished_state s \<and> run [Timeout] (s, 1) = None"
    by blast
  ultimately show ?thesis
    using i d j by auto
qed

subsection \<open>C3: finishing twice\<close>

text \<open>
  Claim C3. \<^verbatim>\<open>_finish\<close> never raises, whichever of the three \<^verbatim>\<open>stop()\<close> calls raise and
  whatever state the timer, the player and the animation are in (never started, running,
  paused or already stopped), and a second call right after the first leaves the window in
  the same state as the first did and raises nothing either. With Qt and vlc as documented
  that state is the terminal one. Each call emits the \<^verbatim>\<open>finished\<close> signal once.
\<close>

theorem finish_idempotent:
  "(\<exists>t. finish F s = Inr (t, 1) \<and> finish F t = Inr (t, 1) \<and> \<not> visible t)
   \<and> (\<exists>t. finish no_faults s = Inr (t, 1) \<and> finish no_faults t = Inr (t, 1) \<and> finished_state t)"
  by (simp add: finish_def Let_def stop_defs no_faults_def finished_state_def)

text \<open>
  An animated overlay whose movie is running, finished twice; and one whose player cannot
  be stopped.
\<close>

theorem finish_idempotent_witness:
  "is_gif ((example_overlay 3)\<lparr>is_gif := True, movie := Playing\<rparr>)
   \<and> (\<exists>t. finish no_faults ((example_overlay 3)\<lparr>is_gif := True, movie := Playing\<rparr>) = Inr (t, 1)
          \<and> finish no_faults t = Inr (t, 1) \<and> finished_state t)
   \<and> (\<exists>t. finish (\<lambda>r. r = Player) (example_overlay 3) = Inr (t, 1)
          \<and> finish (\<lambda>r. r = Player) t = Inr (t, 1) \<and> \<not> visible t)"
  using finish_idempotent [of no_faults "(example_overlay 3)\<lparr>is_gif := True, movie := Playing\<rparr>"]
    finish_idempotent [of "\<lambda>r. r = Player" "example_overlay 3"]
  by simp

subsection \<open>C4: pausing and resuming\<close>

text \<open>
  Claim C4 as stated, for every \<open>k\<close> from 0 to \<open>d\<close>, fails at \<open>k = d\<close>: the overlay has
  finished with the \<open>d\<close>-th tick, and \<^verbatim>\<open>_toggle_pause\<close>, which does not test for that, then
  stops and on resuming restarts the timer and the player. For \<open>d = 1\<close>: one tick, pause,
  resume and no further tick leave \<open>elapsed = 1\<close> with the timer active and the player
  playing, which is not the terminal state: the next timeout is delivered, counts to 2 and
  signals a second time.
\<close>

theorem pause_after_last_tick_restarts:
  "OverlayWindow_init (example_env 640 480) IMAGE_PATH 1 ''u'' = Inr (example_overlay 1)
   \<and> \<not> isl (invoke no_faults [Timeout, PauseClicked, PauseClicked]
              (show_window (example_overlay 1), 0))
   \<and> elapsed (fst (projr (invoke no_faults [Timeout, PauseClicked, PauseClicked]
              (show_window (example_overlay 1), 0)))) = 1
   \<and> timer_active (fst (projr (invoke no_faults [Timeout, PauseClicked, PauseClicked]
              (show_window (example_overlay 1), 0))))
   \<and> player (fst (projr (invoke no_faults [Timeout, PauseClicked, PauseClicked]
              (show_window (example_overlay 1), 0)))) = Playing
   \<and> \<not> finished_state (fst (projr (invoke no_faults [Timeout, PauseClicked, PauseClicked]
              (show_window (example_overlay 1), 0))))
   \<and> run [Timeout] (projr (invoke no_faults [Timeout, PauseClicked, PauseClicked]
              (show_window (example_overlay 1), 0))) \<noteq> None
   \<and> elapsed (fst (the (run [Timeout] (projr (invoke no_faults
              [Timeout, PauseClicked, PauseClicked] (show_window (example_overlay 1), 0)))))) = 2
   \<and> snd (the (run [Timeout] (projr (invoke no_faults
              [Timeout, PauseClicked, PauseClicked] (show_window (example_overlay 1), 0))))) = 2"
  by (simp add: example_overlay_init)
    (simp add: example_overlay_def show_window_def showEvent_def tick_def toggle_pause_def
      finish_def Let_def stop_defs call_defs no_faults_def finished_state_def)

text \<open>
  Claim C4, amended to \<open>k < d\<close>. For an overlay of duration \<open>d\<close>, constructed and shown,
  and every \<open>k < d\<close> and \<open>m\<close>: \<open>k\<close> calls of \<^verbatim>\<open>_tick\<close> give \<open>elapsed = k\<close>; pausing
  stops the timer; \<open>m\<close> calls of \<^verbatim>\<open>_tick\<close> while paused change nothing at all; and after
  resuming, \<open>d - k\<close> more calls end in the terminal state with \<open>elapsed = d\<close> and one
  \<^verbatim>\<open>finished\<close> signal. The slots are called directly here (\<open>invoke\<close>), since the event
  loop delivers no timeout while the overlay is paused.
\<close>

theorem pause_resume_then_finish:
  assumes "OverlayWindow_init E path d url = Inr w" and "int k < d"
  shows "\<exists>s p t.
       invoke no_faults (replicate k Timeout) (show_window w, 0) = Inr (s, 0)
     \<and> elapsed s = int k
     \<and> toggle_pause no_faults s = Inr (p, 0) \<and> paused p \<and> \<not> timer_active p
     \<and> invoke no_faults (replicate m Timeout) (p, 0) = Inr (p, 0)
     \<and> invoke no_faults
          (replicate k Timeout @ [PauseClicked] @ replicate m Timeout @ [PauseClicked]
             @ replicate (nat d - k) Timeout) (show_window w, 0) = Inr (t, 1)
     \<and> elapsed t = d \<and> finished_state t"
proof -
  note fresh = init_fresh [OF assms(1)]
  from fresh assms(2) have "elapsed (show_window w) + int k < duration (show_window w)"
    by simp
  from run_ticks_live [OF fresh(3,4) this, of 0] fresh
  obtain s where s: "run (replicate k Timeout) (show_window w, 0) = Some (s, 0)"
    "elapsed s = int k" "duration s = d" "\<not> paused s"
    by auto
  from toggle_pause_no_faults [of s] s
  obtain p where p: "toggle_pause no_faults s = Inr (p, 0)" "elapsed p = int k"
    "duration p = d" "paused p" "\<not> timer_active p"
    by auto
  from toggle_pause_no_faults [of p] p
  obtain r where r: "toggle_pause no_faults p = Inr (r, 0)" "elapsed r = int k"
    "duration r = d" "\<not> paused r" "timer_active r"
    by auto
  from r assms(2) have "elapsed r < duration r" by simp
  from run_ticks_finish [OF r(4,5) this, of 0] r
  obtain t where t: "run (replicate (nat (d - int k)) Timeout) (r, 0) = Some (t, 1)"
    "elapsed t = d" "finished_state t"
    by auto
  from assms(2) have "nat (d - int k) = nat d - k" by simp
  with t have t': "invoke no_faults (replicate (nat d - k) Timeout) (r, 0) = Inr (t, 1)"
    by (simp add: run_invoke)
  from s have s': "invoke no_faults (replicate k Timeout) (show_window w, 0) = Inr (s, 0)"
    by (simp add: run_invoke)
  have pm: "invoke no_faults (replicate m Timeout) (p, 0) = Inr (p, 0)"
    using p(4) by (rule invoke_paused_ticks)
  have "invoke no_faults
          (replicate k Timeout @ [PauseClicked] @ replicate m Timeout @ [PauseClicked]
             @ replicate (nat d - k) Timeout) (show_window w, 0) = Inr (t, 1)"
    using s' p(1) pm r(1) t' by (simp add: invoke_append)
  with s' s(2) p pm t show ?thesis
    by blast
qed

text \<open>
  The scenario of a five-second overlay: pause at \<open>elapsed = 2\<close>, three ticks while paused,
  resume, three more ticks.
\<close>

theorem pause_resume_then_finish_witness:
  "OverlayWindow_init (example_env 640 480) IMAGE_PATH 5 ''u'' = Inr (example_overlay 5)
   \<and> int 2 < 5
   \<and> (\<exists>t. invoke no_faults
          (replicate 2 Timeout @ [PauseClicked] @ replicate 3 Timeout @ [PauseClicked]
             @ replicate (nat 5 - 2) Timeout) (show_window (example_overlay 5), 0) = Inr (t, 1)
          \<and> elapsed t = 5 \<and> finished_state t)"
proof -
  have k: "int 2 < 5" by simp
  have i: "OverlayWindow_init (example_env 640 480) IMAGE_PATH 5 ''u'' = Inr (example_overlay 5)"
    by (simp add: example_overlay_init)
  from pause_resume_then_finish [OF i k, where m = 3]
  have "\<exists>t. invoke no_faults
          (replicate 2 Timeout @ [PauseClicked] @ replicate 3 Timeout @ [PauseClicked]
             @ replicate (nat 5 - 2) Timeout) (show_window (example_overlay 5), 0) = Inr (t, 1)
          \<and> elapsed t = 5 \<and> finished_state t"
    by blast
  with k show ?thesis
    using i by blast
qed

subsection \<open>C5: what the setup dialog returns\<close>

text \<open>
  Claim C5. \<^verbatim>\<open>get_values\<close> returns the integer that \<^verbatim>\<open>int\<close> reads from the duration
  field, and 0 when \<^verbatim>\<open>int\<close> raises: \<^verbatim>\<open>"abc"\<close> gives 0, \<^verbatim>\<open>"45"\<close> gives 45. The second
  component is the URL field trimmed: the field is the result with white space before and
  after it, and the result, unless empty, neither starts nor ends with white space.
\<close>

theorem get_values_parses_and_trims:
  "get_values mx ''abc'' u = Inr (0, strip u)
   \<and> get_values mx ''45'' u = Inr (45, strip u)
   \<and> (\<forall>e. py_int mx t = Inl e \<longrightarrow> get_values mx t u = Inr (0, strip u))
   \<and> (\<forall>n. py_int mx t = Inr n \<longrightarrow> get_values mx t u = Inr (n, strip u))
   \<and> (\<exists>pre suf. u = pre @ strip u @ suf \<and> list_all py_isspace pre \<and> list_all py_isspace suf)
   \<and> (strip u \<noteq> [] \<longrightarrow> \<not> py_isspace (hd (strip u)) \<and> \<not> py_isspace (last (strip u)))"
proof -
  have ex: "\<exists>pre suf. u = pre @ strip u @ suf \<and> list_all py_isspace pre \<and> list_all py_isspace suf"
  proof (intro exI conjI)
    show "u = takeWhile py_isspace u @ strip u
         @ rev (takeWhile py_isspace (rev (dropWhile py_isspace u)))"
      by (rule strip_decompose)
    show "list_all py_isspace (takeWhile py_isspace u)"
      by (auto simp: list_all_iff dest: set_takeWhileD)
    show "list_all py_isspace (rev (takeWhile py_isspace (rev (dropWhile py_isspace u))))"
      by (auto simp: list_all_iff dest: set_takeWhileD)
  qed
  show ?thesis
    using ex strip_ends [of u]
    by (simp add: get_values_def py_int_abc py_int_45)
qed

theorem get_values_parses_and_trims_witness:
  "py_int 4300 ''4x'' = Inl ValueError
   \<and> get_values 4300 ''4x'' '' a b '' = Inr (0, ''a b'')
   \<and> py_int 4300 '' 12'' = Inr 12
   \<and> get_values 4300 '' 12'' '' a b '' = Inr (12, ''a b'')
   \<and> strip '' a b '' \<noteq> [] \<and> \<not> py_isspace (hd (strip '' a b ''))"
  using get_values_parses_and_trims [where mx = 4300 and t = "''4x''" and u = "'' a b ''"]
    get_values_parses_and_trims [where mx = 4300 and t = "'' 12''" and u = "'' a b ''"]
  by (simp add: py_int_def Let_def int_isspace_def is_digit_def decimal_def digit_val_def
      strip_def py_isspace_def)

subsection \<open>C6: when an overlay is constructed\<close>

text \<open>
  Claim C6. When the dialog was confirmed and returned \<open>(dur, url)\<close>: with \<open>dur \<le> 0\<close> or
  an empty \<open>url\<close> no overlay is constructed; an overlay is shown only with \<open>dur > 0\<close> and a
  non-empty \<open>url\<close>, and then the constructor is run on exactly these values. When the dialog
  was dismissed the application quits.
\<close>

theorem overlay_needs_duration_and_url:
  assumes "get_values mx dt ut = Inr (dur, url)"
  shows "(dur \<le> 0 \<or> url = [] \<longrightarrow> start_cycle mx E True dt ut = NoOverlay)
   \<and> (\<forall>ow. start_cycle mx E True dt ut = OverlayShown ow \<longrightarrow> 0 < dur \<and> url \<noteq> [])
   \<and> (0 < dur \<and> url \<noteq> [] \<longrightarrow>
        start_cycle mx E True dt ut =
          (case OverlayWindow_init E IMAGE_PATH dur url of
             Inl e \<Rightarrow> Uncaught e | Inr ow \<Rightarrow> OverlayShown (show_window ow)))
   \<and> start_cycle mx E False dt ut = AppQuit"
  using assms by (auto simp: start_cycle_def split: sum.splits)

theorem overlay_needs_duration_and_url_witness:
  "get_values 4300 ''30'' '' v '' = Inr (30, ''v'')
   \<and> start_cycle 4300 (example_env 640 480) True ''30'' '' v ''
       = OverlayShown (show_window (example_overlay 30))
   \<and> get_values 4300 ''abc'' ''v'' = Inr (0, ''v'')
   \<and> start_cycle 4300 (example_env 640 480) True ''abc'' ''v'' = NoOverlay
   \<and> get_values 4300 ''30'' ''  '' = Inr (30, [])
   \<and> start_cycle 4300 (example_env 640 480) True ''30'' ''  '' = NoOverlay"
proof -
  have g1: "get_values 4300 ''30'' '' v '' = Inr (30, ''v'')"
    by (simp add: get_values_def py_int_def Let_def int_isspace_def is_digit_def decimal_def
        digit_val_def strip_def py_isspace_def)
  have g2: "get_values 4300 ''abc'' ''v'' = Inr (0, ''v'')"
    by (simp add: get_values_def py_int_abc strip_def py_isspace_def)
  have g3: "get_values 4300 ''30'' ''  '' = Inr (30, [])"
    by (simp add: get_values_def py_int_def Let_def int_isspace_def is_digit_def decimal_def
        digit_val_def strip_def py_isspace_def)
  from overlay_needs_duration_and_url [OF g1, of "example_env 640 480"]
  have "start_cycle 4300 (example_env 640 480) True ''30'' '' v ''
       = OverlayShown (show_window (example_overlay 30))"
    by (simp add: example_overlay_init)
  moreover from overlay_needs_duration_and_url [OF g2, of "example_env 640 480"]
  have "start_cycle 4300 (example_env 640 480) True ''abc'' ''v'' = NoOverlay"
    by simp
  moreover from overlay_needs_duration_and_url [OF g3, of "example_env 640 480"]
  have "start_cycle 4300 (example_env 640 480) True ''30'' ''  '' = NoOverlay"
    by simp
  ultimately show ?thesis
    using g1 g2 g3 by simp
qed

subsection \<open>C7: cancelling\<close>

text \<open>
  Claim C7. With Qt and vlc as documented, \<^verbatim>\<open>_cancel\<close> takes the overlay from any state
  straight to the terminal state (timer stopped, player stopped, animation stopped, window
  closed) and emits \<^verbatim>\<open>finished\<close> once; \<open>elapsed\<close> and \<open>duration\<close> are left as they were,
  so with \<open>0 \<le> elapsed < duration\<close> before, \<open>elapsed\<close> is still below \<open>duration\<close> after.
  Whatever the \<^verbatim>\<open>stop()\<close> calls do, a \<^verbatim>\<open>_cancel\<close> that returns has done the same.
\<close>

theorem cancel_finishes:
  "(\<exists>t. cancel no_faults s = Inr (t, 1) \<and> finished_state t
       \<and> elapsed t = elapsed s \<and> duration t = duration s
       \<and> (0 \<le> elapsed s \<and> elapsed s < duration s \<longrightarrow> elapsed t < duration t))
   \<and> (\<forall>t n. cancel F s = Inr (t, n) \<longrightarrow>
         n = 1 \<and> finished_state t \<and> elapsed t = elapsed s \<and> duration t = duration s)"
proof -
  have "\<forall>t n. cancel F s = Inr (t, n) \<longrightarrow>
         n = 1 \<and> finished_state t \<and> elapsed t = elapsed s \<and> duration t = duration s"
    by (blast dest: cancel_result)
  then show ?thesis
    by (simp add: cancel_no_faults finished_state_def)
qed

text \<open>An animated overlay cancelled one second into a three-second countdown.\<close>

theorem cancel_finishes_witness:
  "(0::int) \<le> elapsed ((example_overlay 3)\<lparr>is_gif := True, movie := Playing, elapsed := 1\<rparr>)
   \<and> elapsed ((example_overlay 3)\<lparr>is_gif := True, movie := Playing, elapsed := 1\<rparr>)
       < duration ((example_overlay 3)\<lparr>is_gif := True, movie := Playing, elapsed := 1\<rparr>)
   \<and> (\<exists>t. cancel no_faults ((example_overlay 3)\<lparr>is_gif := True, movie := Playing, elapsed := 1\<rparr>)
            = Inr (t, 1)
          \<and> finished_state t \<and> elapsed t = 1 \<and> elapsed t < duration t)"
  using cancel_finishes
    [of "(example_overlay 3)\<lparr>is_gif := True, movie := Playing, elapsed := 1\<rparr>" no_faults]
  by (simp add: example_overlay_def) blast

subsection \<open>C8: the initial size\<close>

text \<open>
  Claim C8 as stated, the initial displayed size is exactly half the native size, fails
  for an odd width or height: \<^verbatim>\<open>int(w0 * 0.5)\<close> drops the fraction, and the pixmap is then
  fitted into that box with its aspect ratio kept. An image 5 by 3 gets the initial box
  2 by 1, not 5/2 by 3/2, and the pixmap shown in it is 1 by 1.
\<close>

theorem initial_size_not_exactly_half:
  "\<not> isl (OverlayWindow_init (example_env 5 3) IMAGE_PATH 10 ''u'')
   \<and> init_w (projr (OverlayWindow_init (example_env 5 3) IMAGE_PATH 10 ''u'')) = 2
   \<and> rat_of_int (init_w (projr (OverlayWindow_init (example_env 5 3) IMAGE_PATH 10 ''u'')))
       \<noteq> 5 / 2
   \<and> label_pixmap (projr (OverlayWindow_init (example_env 5 3) IMAGE_PATH 10 ''u'')) = (1, 1)
   \<and> rat_of_int (fst (label_pixmap
         (projr (OverlayWindow_init (example_env 5 3) IMAGE_PATH 10 ''u'')))) \<noteq> 5 / 2"
  by (simp add: OverlayWindow_init_def example_env_def Let_def layout_def int_of_float_examples
      IMAGE_PATH_not_gif pixmap_scaled_examples)

text \<open>
  Claim C8, amended to static images. When the constructor succeeds on a path that does
  not end in \<^verbatim>\<open>.gif\<close>, for an image of native width \<open>w0 > 0\<close> and height \<open>h0 > 0\<close>: the
  initial box of the asset (\<open>init_w\<close> by \<open>init_h\<close>, which is the geometry of the label and
  the size asked of the scaler) is half the native size rounded down, \<open>w0 div 2\<close> by
  \<open>h0 div 2\<close>, exactly half in a dimension precisely when that dimension is even. The
  pixmap shown is the image scaled into that box with its aspect ratio kept: it is never
  larger than the box, and when \<open>w0\<close> and \<open>h0\<close> are both even it is exactly half the
  native size. (What the constructor does for a GIF is \<open>gif_initial_size\<close>.)
\<close>

theorem initial_size_of_static_image:
  assumes "OverlayWindow_init E path dur url = Inr ow" and "\<not> is_gif_path path"
    and "load E path = Some (w0, h0)" and "0 < w0" and "0 < h0"
  shows "init_w ow = w0 div 2 \<and> init_h ow = h0 div 2
     \<and> label_w ow = w0 div 2 \<and> label_h ow = h0 div 2
     \<and> scaled_to ow = (w0 div 2, h0 div 2)
     \<and> (2 * init_w ow = w0) = even w0 \<and> (2 * init_h ow = h0) = even h0
     \<and> 2 * init_w ow \<le> w0 \<and> w0 \<le> 2 * init_w ow + 1
     \<and> 2 * init_h ow \<le> h0 \<and> h0 \<le> 2 * init_h ow + 1
     \<and> label_pixmap ow = pixmap_scaled (w0, h0) (w0 div 2, h0 div 2)
     \<and> fst (label_pixmap ow) \<le> w0 div 2 \<and> snd (label_pixmap ow) \<le> h0 div 2
     \<and> (even w0 \<and> even h0 \<longrightarrow>
          2 * fst (label_pixmap ow) = w0 \<and> 2 * snd (label_pixmap ow) = h0)"
proof -
  from assms have w: "int_of_float (of_int w0 * FIXED_SCALE) = w0 div 2"
    and h: "int_of_float (of_int h0 * FIXED_SCALE) = h0 div 2"
    by (simp_all add: int_of_float_half)
  from assms(1,2,3) have ow: "init_w ow = w0 div 2" "init_h ow = h0 div 2"
     "label_w ow = w0 div 2" "label_h ow = h0 div 2" "scaled_to ow = (w0 div 2, h0 div 2)"
     "label_pixmap ow = pixmap_scaled (w0, h0) (w0 div 2, h0 div 2)"
    by (auto simp: OverlayWindow_init_def Let_def layout_def w h
        split: option.splits if_splits)
  have half: "(2 * (w0 div 2) = w0) = even w0" "(2 * (h0 div 2) = h0) = even h0"
    "2 * (w0 div 2) \<le> w0" "w0 \<le> 2 * (w0 div 2) + 1"
    "2 * (h0 div 2) \<le> h0" "h0 \<le> 2 * (h0 div 2) + 1"
    by presburger+
  from assms(4,5) have box: "0 \<le> w0 div 2" "0 \<le> h0 div 2"
    by simp_all
  from assms(4,5) box
  have within: "fst (pixmap_scaled (w0, h0) (w0 div 2, h0 div 2)) \<le> w0 div 2
      \<and> snd (pixmap_scaled (w0, h0) (w0 div 2, h0 div 2)) \<le> h0 div 2"
    by (intro pixmap_scaled_within) simp_all
  have exact: "2 * fst (pixmap_scaled (w0, h0) (w0 div 2, h0 div 2)) = w0
      \<and> 2 * snd (pixmap_scaled (w0, h0) (w0 div 2, h0 div 2)) = h0"
    if "even w0" and "even h0"
  proof -
    from that(1) obtain a where a: "w0 = 2 * a"
      by (rule evenE)
    from that(2) obtain b where b: "h0 = 2 * b"
      by (rule evenE)
    note ab = a b
    with assms(4,5) have "0 < a" "0 < b"
      by simp_all
    then have "pixmap_scaled (2 * a, 2 * b) (a, b) = (a, b)"
      by (rule pixmap_scaled_half_even)
    with ab show ?thesis
      by simp
  qed
  from ow half within exact show ?thesis
    by simp
qed

text \<open>
  An image 640 by 481: the box is 320 by 240 and the pixmap shown 319 by 240. An image
  640 by 480: box and pixmap are 320 by 240, exactly half.
\<close>

theorem initial_size_of_static_image_witness:
  "\<not> is_gif_path IMAGE_PATH
   \<and> load (example_env 640 481) IMAGE_PATH = Some (640, 481)
   \<and> (0::int) < 640 \<and> (0::int) < 481 \<and> odd (481::int)
   \<and> (\<exists>ow. OverlayWindow_init (example_env 640 481) IMAGE_PATH 10 ''u'' = Inr ow
          \<and> init_w ow = 320 \<and> init_h ow = 240 \<and> 2 * init_h ow \<noteq> 481
          \<and> scaled_to ow = (320, 240) \<and> label_pixmap ow = (319, 240))
   \<and> load (example_env 640 480) IMAGE_PATH = Some (640, 480)
   \<and> (0::int) < 480 \<and> even (640::int) \<and> even (480::int)
   \<and> OverlayWindow_init (example_env 640 480) IMAGE_PATH 10 ''u'' = Inr (example_overlay 10)
   \<and> 2 * fst (label_pixmap (example_overlay 10)) = 640
   \<and> 2 * snd (label_pixmap (example_overlay 10)) = 480"
proof -
  note g = IMAGE_PATH_not_gif
  have l1: "load (example_env 640 481) IMAGE_PATH = Some (640, 481)"
    and l2: "load (example_env 640 480) IMAGE_PATH = Some (640, 480)"
    by (simp_all add: example_env_def)
  have w: "(0::int) < 640" and h1: "(0::int) < 481" and h2: "(0::int) < 480"
    by simp_all
  have "\<exists>ow. OverlayWindow_init (example_env 640 481) IMAGE_PATH 10 ''u'' = Inr ow"
    by (simp add: OverlayWindow_init_def example_env_def Let_def)
  then obtain ow where i1: "OverlayWindow_init (example_env 640 481) IMAGE_PATH 10 ''u'' = Inr ow"
    by blast
  from initial_size_of_static_image [OF i1 g l1 w h1]
  have "init_w ow = 320 \<and> init_h ow = 240 \<and> 2 * init_h ow \<noteq> 481
          \<and> scaled_to ow = (320, 240) \<and> label_pixmap ow = (319, 240)"
    by (simp add: pixmap_scaled_examples)
  with i1 have odd_case: "\<exists>ow. OverlayWindow_init (example_env 640 481) IMAGE_PATH 10 ''u'' = Inr ow
          \<and> init_w ow = 320 \<and> init_h ow = 240 \<and> 2 * init_h ow \<noteq> 481
          \<and> scaled_to ow = (320, 240) \<and> label_pixmap ow = (319, 240)"
    by blast
  have i2: "OverlayWindow_init (example_env 640 480) IMAGE_PATH 10 ''u'' = Inr (example_overlay 10)"
    by (simp add: example_overlay_init)
  from initial_size_of_static_image [OF i2 g l2 w h2]
  have "2 * fst (label_pixmap (example_overlay 10)) = 640
      \<and> 2 * snd (label_pixmap (example_overlay 10)) = 480"
    by (simp add: pixmap_scaled_examples)
  with g l1 l2 odd_case i2 show ?thesis
    by simp
qed

subsection \<open>C9: the setup dialog never raises\<close>

text \<open>
  Claim C9. \<^verbatim>\<open>get_values\<close> returns a pair of an integer and a string for every content of
  the two fields and raises nothing. A signed number is not a parse failure: \<^verbatim>\<open>"-5"\<close>
  gives \<open>-5\<close>, and so does every minus sign followed by digits (as long as the
  interpreter's limit on the number of digits allows them).
\<close>

theorem get_values_total:
  "(\<exists>n. get_values mx t u = Inr (n, strip u)
         \<and> (py_int mx t = Inr n \<or> (\<exists>e. py_int mx t = Inl e) \<and> n = 0))
   \<and> get_values mx ''-5'' u = Inr (- 5, strip u)
   \<and> (ds \<noteq> [] \<and> list_all is_digit ds \<and> (length ds \<le> 640 \<or> mx = 0 \<or> length ds \<le> mx)
        \<longrightarrow> get_values mx (CHR ''-'' # ds) u = Inr (- decimal ds, strip u))"
proof -
  have "\<exists>n. get_values mx t u = Inr (n, strip u)
         \<and> (py_int mx t = Inr n \<or> (\<exists>e. py_int mx t = Inl e) \<and> n = 0)"
    by (cases "py_int mx t") (simp_all add: get_values_def)
  then show ?thesis
    by (simp add: get_values_def py_int_minus5 py_int_negative)
qed

theorem get_values_total_witness:
  "''12'' \<noteq> [] \<and> list_all is_digit ''12'' \<and> length ''12'' \<le> 640
   \<and> get_values 4300 ''-12'' ''u'' = Inr (- 12, ''u'')"
  using get_values_total [where mx = 4300 and ds = "''12''" and u = "''u''" and t = "''x''"]
  by (simp add: is_digit_def decimal_def digit_val_def strip_def py_isspace_def)

subsection \<open>C10: the elapsed counter never goes down\<close>

text \<open>
  Claim C10. \<^verbatim>\<open>_tick\<close> always returns, and adds exactly 1 to \<open>elapsed\<close> when the pause flag
  is unset and leaves it unchanged otherwise. \<^verbatim>\<open>_toggle_pause\<close>, \<^verbatim>\<open>_cancel\<close> and
  \<^verbatim>\<open>_finish\<close> leave \<open>elapsed\<close> unchanged. So no slot ever lowers \<open>elapsed\<close>. With Qt and
  vlc as documented the three operations return as well.
\<close>

theorem elapsed_monotone:
  "(\<exists>t n. tick F s = Inr (t, n) \<and> elapsed t = (if paused s then elapsed s else elapsed s + 1))
   \<and> (\<forall>t n. toggle_pause F s = Inr (t, n) \<longrightarrow> elapsed t = elapsed s)
   \<and> (\<forall>t n. cancel F s = Inr (t, n) \<longrightarrow> elapsed t = elapsed s)
   \<and> (\<forall>t n. finish F s = Inr (t, n) \<longrightarrow> elapsed t = elapsed s)
   \<and> (\<forall>e t n. slot F e s = Inr (t, n) \<longrightarrow> elapsed s \<le> elapsed t)
   \<and> (\<exists>t. toggle_pause no_faults s = Inr (t, 0)) \<and> (\<exists>t. cancel no_faults s = Inr (t, 1))
   \<and> (\<exists>t. finish F s = Inr (t, 1))"
proof (intro conjI allI impI)
  show "\<exists>t n. tick F s = Inr (t, n) \<and> elapsed t = (if paused s then elapsed s else elapsed s + 1)"
    by (rule elapsed_tick)
  show "elapsed t = elapsed s" if "toggle_pause F s = Inr (t, n)" for t n
    using that by (rule elapsed_toggle_pause)
  show "elapsed t = elapsed s" if "cancel F s = Inr (t, n)" for t n
    using that by (simp add: cancel_result)
  show "elapsed t = elapsed s" if "finish F s = Inr (t, n)" for t n
    using that by (rule elapsed_finish)
  show "elapsed s \<le> elapsed t" if "slot F e s = Inr (t, n)" for e t n
  proof (cases e)
    case Timeout
    with that elapsed_tick [of F s] show ?thesis by (auto split: if_splits)
  next
    case PauseClicked
    with that show ?thesis by (simp add: elapsed_toggle_pause)
  next
    case CancelClicked
    with that show ?thesis by (simp add: cancel_result)
  next
    case Shown
    with that show ?thesis by (auto simp: showEvent_fields)
  next
    case (Resized w h)
    with that show ?thesis by (auto simp: resizeEvent_fields)
  qed
  show "\<exists>t. toggle_pause no_faults s = Inr (t, 0)"
    using toggle_pause_no_faults [of s] by blast
  show "\<exists>t. cancel no_faults s = Inr (t, 1)"
    by (simp add: cancel_no_faults)
  show "\<exists>t. finish F s = Inr (t, 1)"
    by (simp add: finish_def Let_def)
qed

text \<open>A shown three-second overlay: one tick counts to 1, pausing and cancelling keep 0.\<close>

theorem elapsed_monotone_witness:
  "(\<exists>t. tick no_faults (show_window (example_overlay 3)) = Inr (t, 0) \<and> elapsed t = 1)
   \<and> (\<exists>t. toggle_pause no_faults (show_window (example_overlay 3)) = Inr (t, 0) \<and> elapsed t = 0)
   \<and> (\<exists>t. slot no_faults CancelClicked (show_window (example_overlay 3)) = Inr (t, 1)
          \<and> elapsed (show_window (example_overlay 3)) \<le> elapsed t)"
proof -
  let ?s = "show_window (example_overlay 3)"
  note m = elapsed_monotone [of no_faults ?s]
  have e: "elapsed ?s = 0" "\<not> paused ?s"
    by (simp_all add: example_overlay_def show_window_def showEvent_def call_defs)
  have t0: "\<exists>t. tick no_faults ?s = Inr (t, 0)"
    by (simp add: tick_def Let_def call_defs example_overlay_def show_window_def showEvent_def)
  from m e t0 have "\<exists>t. tick no_faults ?s = Inr (t, 0) \<and> elapsed t = 1"
    by auto
  moreover from m e have "\<exists>t. toggle_pause no_faults ?s = Inr (t, 0) \<and> elapsed t = 0"
    by auto
  moreover from m have "\<exists>t. slot no_faults CancelClicked ?s = Inr (t, 1) \<and> elapsed ?s \<le> elapsed t"
    by (metis slot.simps(3))
  ultimately show ?thesis
    by blast
qed

end
